theory Spec2Isabelle
  imports Main "HOL-Library.Sublist"
begin

section \<open>JavaScript string primitives\<close>

text \<open>
  A JavaScript string is modelled as a \<^typ>\<open>string\<close>: a list of code units, here the code
  units U+0000 to U+00FF. The character classes below are the ones of ECMAScript restricted
  to that range: \<open>\s\<close> and \<open>trim()\<close> know TAB, LF, VT, FF, CR, SPACE and NBSP; \<open>.\<close> excludes
  the line terminators LF and CR; \<open>\w\<close> is \<open>[A-Za-z0-9_]\<close>; \<open>\d\<close> is \<open>[0-9]\<close>.
\<close>

definition isWhiteSpace :: "char \<Rightarrow> bool" where
  "isWhiteSpace c \<longleftrightarrow>
     c = CHR 0x09 \<or> c = CHR 0x0A \<or> c = CHR 0x0B \<or> c = CHR 0x0C \<or> c = CHR 0x0D
     \<or> c = CHR '' '' \<or> c = CHR 0xA0"

definition isLineTerminator :: "char \<Rightarrow> bool" where
  "isLineTerminator c \<longleftrightarrow> c = CHR 0x0A \<or> c = CHR 0x0D"

definition isUpperAscii :: "char \<Rightarrow> bool" where
  "isUpperAscii c \<longleftrightarrow> 65 \<le> (of_char c :: nat) \<and> (of_char c :: nat) \<le> 90"

definition isLowerAscii :: "char \<Rightarrow> bool" where
  "isLowerAscii c \<longleftrightarrow> 97 \<le> (of_char c :: nat) \<and> (of_char c :: nat) \<le> 122"

definition isDigit :: "char \<Rightarrow> bool" where
  "isDigit c \<longleftrightarrow> 48 \<le> (of_char c :: nat) \<and> (of_char c :: nat) \<le> 57"

definition isWordChar :: "char \<Rightarrow> bool" where
  "isWordChar c \<longleftrightarrow> isUpperAscii c \<or> isLowerAscii c \<or> isDigit c \<or> c = CHR ''_''"

text \<open>
  \<open>toLowerCase\<close>: the ASCII capitals, and the Latin-1 capitals U+00C0 to U+00DE without the
  multiplication sign U+00D7, move up by 32; every other code unit of the range is kept.
\<close>

definition toLowerChar :: "char \<Rightarrow> char" where
  "toLowerChar c =
     (let n = (of_char c :: nat)
      in if (65 \<le> n \<and> n \<le> 90) \<or> (192 \<le> n \<and> n \<le> 222 \<and> n \<noteq> 215)
         then char_of (n + 32) else c)"

definition toLowerCase :: "string \<Rightarrow> string" where
  "toLowerCase s = map toLowerChar s"

definition trim :: "string \<Rightarrow> string" where
  "trim s = rev (dropWhile isWhiteSpace (rev (dropWhile isWhiteSpace s)))"

text \<open>\<open>s.indexOf(p) === 0\<close> on strings: \<open>p\<close> is a prefix of \<open>s\<close>.\<close>

definition startsWith :: "string \<Rightarrow> string \<Rightarrow> bool" where
  "startsWith s p \<longleftrightarrow> prefix p s"

text \<open>\<open>Array.prototype.join\<close> and \<open>String.prototype.split\<close> on a one-character separator.\<close>

fun join :: "string \<Rightarrow> string list \<Rightarrow> string" where
  "join sep [] = []"
| "join sep [x] = x"
| "join sep (x # y # ys) = x @ sep @ join sep (y # ys)"

fun split :: "char \<Rightarrow> string \<Rightarrow> string list" where
  "split sep [] = [[]]"
| "split sep (c # cs) =
     (if c = sep then [] # split sep cs
      else (case split sep cs of
              [] \<Rightarrow> [[c]]
            | w # ws \<Rightarrow> (c # w) # ws))"

section \<open>Sanitizer\<close>

subsection \<open>The tree and the policy\<close>

text \<open>
  The DOM nodes the walker tells apart by \<open>nodeType\<close>: an element (1) with its \<open>tagName\<close>,
  its attributes in order (name, value) and its \<open>childNodes\<close>; a text node (3); a comment
  (8); a node of any other type, with that type.
\<close>

type_synonym attribute = "string \<times> string"

datatype node =
    Element string "attribute list" "node list"
  | TextNode string
  | CommentNode string
  | OtherNode nat

text \<open>
  The whitelists of a sanitizer: \<open>allowedTags\<close> and \<open>allowedSchemes\<close> are arrays,
  \<open>allowedAttributes\<close> is a plain object, given by its own properties (tag name to array
  of attribute names).
\<close>

record policy =
  allowedTags :: "string list"
  allowedAttributes :: "string \<Rightarrow> string list option"
  allowedSchemes :: "string list"

text \<open>\<open>_initializeWhitelists\<close>.\<close>

definition initializeWhitelists :: policy where
  "initializeWhitelists = \<lparr>
     allowedTags =
       [''h1'', ''h2'', ''h3'', ''h4'', ''h5'', ''h6'',
        ''p'', ''br'', ''hr'',
        ''strong'', ''em'', ''u'', ''s'', ''code'', ''pre'',
        ''ul'', ''ol'', ''li'',
        ''blockquote'',
        ''table'', ''thead'', ''tbody'', ''tr'', ''th'', ''td'',
        ''a'', ''img'',
        ''div'', ''span'',
        ''sup'', ''sub'',
        ''dl'', ''dt'', ''dd''],
     allowedAttributes = map_of
       [(''a'', [''href'', ''title'', ''target'']),
        (''img'', [''src'', ''alt'', ''title'', ''width'', ''height'']),
        (''code'', [''class'']),
        (''pre'', [''class'']),
        (''div'', [''class'', ''id'']),
        (''span'', [''class'']),
        (''table'', [''class'']),
        (''th'', [''align'', ''colspan'', ''rowspan'']),
        (''td'', [''align'', ''colspan'', ''rowspan''])],
     allowedSchemes = [''http:'', ''https:'', ''mailto:'', ''data:''] \<rparr>"

subsection \<open>URL validation and attributes\<close>

text \<open>\<open>Sanitizer.prototype._isValidURL\<close>, test by test.\<close>

definition isValidURL :: "policy \<Rightarrow> string \<Rightarrow> bool" where
  "isValidURL pol url =
     (if url = [] then False
      else if startsWith (toLowerCase url) ''javascript:'' then False
      else if startsWith (toLowerCase url) ''vbscript:'' then False
      else if startsWith url ''//'' then False
      else if startsWith (toLowerCase url) ''data:'' then startsWith url ''data:image/''
      else if (\<exists>scheme \<in> set (allowedSchemes pol). startsWith url scheme) then True
      else if startsWith url ''/'' \<or> startsWith url ''./'' \<or> startsWith url ''../'' then True
      else if startsWith url ''#'' then True
      else False)"

text \<open>
  \<open>element.removeAttribute(name)\<close>: the first attribute of that name leaves the live
  attribute list; with no such attribute nothing happens.
\<close>

fun removeAttribute :: "string \<Rightarrow> attribute list \<Rightarrow> attribute list" where
  "removeAttribute name [] = []"
| "removeAttribute name (a # as) =
     (if fst a = name then as else a # removeAttribute name as)"

text \<open>
  \<open>this.allowedAttributes[tagName] || []\<close>. The property is looked up on a plain object:
  an own property gives its array; a name the object inherits from \<open>Object.prototype\<close>
  gives that member, a function (for \<open>__proto__\<close> the prototype object), which is truthy
  and is no array; any other name gives \<open>undefined\<close> and so the empty array.
\<close>

definition objectPrototypeMembers :: "string list" where
  "objectPrototypeMembers =
     [''constructor'', ''__defineGetter__'', ''__defineSetter__'', ''hasOwnProperty'',
      ''__lookupGetter__'', ''__lookupSetter__'', ''isPrototypeOf'',
      ''propertyIsEnumerable'', ''toString'', ''valueOf'', ''__proto__'',
      ''toLocaleString'']"

datatype whitelist = ArrayValue "string list" | InheritedMember

definition lookupAllowedAttributes :: "policy \<Rightarrow> string \<Rightarrow> whitelist" where
  "lookupAllowedAttributes pol tagName =
     (case allowedAttributes pol tagName of
        Some names \<Rightarrow> ArrayValue names
      | None \<Rightarrow>
          if tagName \<in> set objectPrototypeMembers then InheritedMember
          else ArrayValue [])"

text \<open>
  The loop of \<open>_sanitizeAttributes\<close>: \<open>i\<close> counts down over the live list, \<open>attrs[i]\<close> is read
  at each turn. Reading beyond the list gives \<open>undefined\<close>, whose \<open>.name\<close> is a TypeError,
  and \<open>allowedAttrs.indexOf\<close> is no function when \<open>allowedAttrs\<close> is an inherited member,
  a TypeError at the call: both are the value \<open>None\<close>.
\<close>

fun sanitizeAttributes_loop ::
  "policy \<Rightarrow> whitelist \<Rightarrow> nat \<Rightarrow> attribute list \<Rightarrow> attribute list option" where
  "sanitizeAttributes_loop pol allowedAttrs 0 attrs = Some attrs"
| "sanitizeAttributes_loop pol allowedAttrs (Suc i) attrs =
     (if i < length attrs then
        (let attr = attrs ! i;
             attrName = toLowerCase (fst attr)
         in case allowedAttrs of
              InheritedMember \<Rightarrow> None
            | ArrayValue names \<Rightarrow>
                if attrName \<notin> set names
                then sanitizeAttributes_loop pol allowedAttrs i (removeAttribute attrName attrs)
                else
                  (let attrs1 =
                         (if (attrName = ''href'' \<or> attrName = ''src'')
                             \<and> \<not> isValidURL pol (snd attr)
                          then removeAttribute attrName attrs else attrs);
                       attrs2 =
                         (if startsWith attrName ''on''
                          then removeAttribute attrName attrs1 else attrs1)
                   in sanitizeAttributes_loop pol allowedAttrs i attrs2))
      else None)"

definition sanitizeAttributes ::
  "policy \<Rightarrow> string \<Rightarrow> attribute list \<Rightarrow> attribute list option" where
  "sanitizeAttributes pol tagName attrs =
     (let allowedAttrs = lookupAllowedAttributes pol tagName
      in sanitizeAttributes_loop pol allowedAttrs (length attrs) attrs)"

text \<open>
  A policy whose allowed tags all have an array behind \<open>allowedAttributes[tagName] || []\<close>:
  none of them is the name of an inherited member without an own property of that name.
\<close>

definition arrayWhitelists :: "policy \<Rightarrow> bool" where
  "arrayWhitelists pol \<longleftrightarrow>
     list_all (\<lambda>tag. lookupAllowedAttributes pol tag \<noteq> InheritedMember) (allowedTags pol)"

subsection \<open>The walk\<close>

text \<open>
  The loop of \<open>_sanitizeNode\<close> over the live \<open>childNodes\<close>: \<open>i\<close> counts down, the child at
  \<open>i\<close> is read, and what the turn does to the parent is to put a list of nodes in the place
  of that child (\<open>visit\<close> gives the list): the child itself when it stays, nothing when
  \<open>removeChild\<close> takes it out, its own children when it is unwrapped. Reading beyond the
  list is a TypeError (\<open>None\<close>).
\<close>

fun childLoop ::
  "(node \<Rightarrow> node list option) \<Rightarrow> nat \<Rightarrow> node list \<Rightarrow> node list option" where
  "childLoop visit 0 childNodes = Some childNodes"
| "childLoop visit (Suc i) childNodes =
     (if i < length childNodes then
        (case visit (childNodes ! i) of
           None \<Rightarrow> None
         | Some repl \<Rightarrow>
             childLoop visit i (take i childNodes @ repl @ drop (Suc i) childNodes))
      else None)"

lemma childLoop_cong [fundef_cong]:
  assumes "i = j" and "cs = ds"
    and "\<And>x. x \<in> set ds \<Longrightarrow> f x = g x"
  shows "childLoop f i cs = childLoop g j ds"
proof -
  have "(\<forall>x \<in> set (take i cs). f x = g x) \<Longrightarrow> childLoop f i cs = childLoop g i cs"
  proof (induction i arbitrary: cs)
    case 0
    show ?case by simp
  next
    case (Suc i)
    show ?case
    proof (cases "i < length cs")
      case False
      then show ?thesis by simp
    next
      case True
      then have mem: "cs ! i \<in> set (take (Suc i) cs)"
        by (simp add: take_Suc_conv_app_nth)
      with Suc.prems have eq: "f (cs ! i) = g (cs ! i)" by blast
      have sub: "set (take i cs) \<subseteq> set (take (Suc i) cs)"
        by (rule set_take_subset_set_take) simp
      have "childLoop f i (take i cs @ r @ drop (Suc i) cs)
            = childLoop g i (take i cs @ r @ drop (Suc i) cs)" for r
      proof (rule Suc.IH)
        from True have "take i (take i cs @ r @ drop (Suc i) cs) = take i cs"
          by simp
        with Suc.prems sub
        show "\<forall>x \<in> set (take i (take i cs @ r @ drop (Suc i) cs)). f x = g x"
          by auto
      qed
      with True eq show ?thesis
        by (simp split: option.splits)
    qed
  qed
  moreover have "set (take i cs) \<subseteq> set cs" by (rule set_take_subset)
  ultimately show ?thesis using assms by auto
qed

text \<open>
  One turn of the loop of \<open>_sanitizeNode\<close> (\<open>sanitizeNode_visit\<close>), and \<open>_sanitizeElement\<close>
  for an element child: a tag outside \<open>allowedTags\<close> has its children moved before it and is
  removed, so its children take its place; an allowed element keeps its place, with its
  attributes and then its children sanitized.
\<close>

fun sanitizeElement :: "policy \<Rightarrow> string \<Rightarrow> attribute list \<Rightarrow> node list \<Rightarrow> node list option"
  and sanitizeNode_visit :: "policy \<Rightarrow> node \<Rightarrow> node list option" where
  "sanitizeElement pol elTagName attrs kids =
     (let tagName = toLowerCase elTagName
      in if tagName \<notin> set (allowedTags pol) then Some kids
         else
           (case sanitizeAttributes pol tagName attrs of
              None \<Rightarrow> None
            | Some attrs' \<Rightarrow>
                (case childLoop (sanitizeNode_visit pol) (length kids) kids of
                   None \<Rightarrow> None
                 | Some kids' \<Rightarrow> Some [Element elTagName attrs' kids'])))"
| "sanitizeNode_visit pol (Element elTagName attrs kids) =
     sanitizeElement pol elTagName attrs kids"
| "sanitizeNode_visit pol (TextNode t) = Some [TextNode t]"
| "sanitizeNode_visit pol (CommentNode c) = Some []"
| "sanitizeNode_visit pol (OtherNode k) = Some []"

definition sanitizeNode :: "policy \<Rightarrow> node list \<Rightarrow> node list option" where
  "sanitizeNode pol childNodes =
     childLoop (sanitizeNode_visit pol) (length childNodes) childNodes"

text \<open>
  The document, when there is one: what assigning \<open>innerHTML\<close> of a fresh \<open>div\<close> parses a
  string to, and what reading \<open>innerHTML\<close> serializes the children to. Both belong to the
  browser, so they are parameters.
\<close>

record document =
  parseHTML :: "string \<Rightarrow> node list"
  serializeHTML :: "node list \<Rightarrow> string"

text \<open>
  \<open>Sanitizer.prototype.sanitize\<close> with \<open>_createContainer\<close>. Without a document the
  container is the stub object: \<open>innerHTML\<close> is a plain field, \<open>childNodes\<close> is the empty
  array, so the walk has no turn and the field is read back.
\<close>

definition sanitize :: "policy \<Rightarrow> document option \<Rightarrow> string \<Rightarrow> string option" where
  "sanitize pol doc html =
     (if html = [] then Some []
      else
        (case doc of
           Some d \<Rightarrow>
             (case sanitizeNode pol (parseHTML d html) of
                None \<Rightarrow> None
              | Some childNodes \<Rightarrow> Some (serializeHTML d childNodes))
         | None \<Rightarrow>
             (case sanitizeNode pol [] of
                None \<Rightarrow> None
              | Some childNodes \<Rightarrow> Some html)))"

section \<open>MarkdownParser\<close>

subsection \<open>Escaping and heading identifiers\<close>

definition nl :: string where
  "nl = [CHR 0x0A]"

definition dq :: string where
  "dq = [CHR 0x22]"

text \<open>\<open>MarkdownParser.prototype._escapeHTML\<close>: the five characters of its map.\<close>

definition escapeChar :: "char \<Rightarrow> string" where
  "escapeChar c =
     (if c = CHR ''&'' then ''&amp;''
      else if c = CHR ''<'' then ''&lt;''
      else if c = CHR ''>'' then ''&gt;''
      else if c = CHR 0x22 then ''&quot;''
      else if c = CHR 0x27 then ''&#x27;''
      else [c])"

definition escapeHTML :: "string \<Rightarrow> string" where
  "escapeHTML text = concat (map escapeChar text)"

text \<open>
  \<open>String.prototype.replace\<close> with a global pattern: the input is scanned from the left;
  where the pattern matches, the replacement is emitted and the scan goes on behind the
  match, elsewhere the character is copied. \<open>matcher\<close> tells whether the pattern matches
  at the head of the remaining input, with the replacement and the input left behind the
  match. None of the patterns of this program looks behind the current position or matches
  the empty string.
\<close>

fun replaceAll :: "(string \<Rightarrow> (string \<times> string) option) \<Rightarrow> string \<Rightarrow> string" where
  "replaceAll matcher [] = []"
| "replaceAll matcher (c # cs) =
     (case matcher (c # cs) of
        None \<Rightarrow> c # replaceAll matcher cs
      | Some (replacement, rest) \<Rightarrow>
          if length rest < length (c # cs) then replacement @ replaceAll matcher rest
          else c # replaceAll matcher cs)"

text \<open>The three patterns of \<open>_generateId\<close>: \<open>/[^\w\s-]/\<close>, \<open>/\s+/\<close> and \<open>/-+/\<close>.\<close>

definition notWordSpaceHyphen :: "string \<Rightarrow> (string \<times> string) option" where
  "notWordSpaceHyphen s =
     (case s of
        [] \<Rightarrow> None
      | c # cs \<Rightarrow>
          if isWordChar c \<or> isWhiteSpace c \<or> c = CHR ''-'' then None else Some ([], cs))"

definition spaceRun :: "string \<Rightarrow> (string \<times> string) option" where
  "spaceRun s =
     (if takeWhile isWhiteSpace s = [] then None else Some (''-'', dropWhile isWhiteSpace s))"

definition hyphenRun :: "string \<Rightarrow> (string \<times> string) option" where
  "hyphenRun s =
     (if takeWhile (\<lambda>c. c = CHR ''-'') s = [] then None
      else Some (''-'', dropWhile (\<lambda>c. c = CHR ''-'') s))"

definition generateId :: "string \<Rightarrow> string" where
  "generateId text =
     trim (replaceAll hyphenRun (replaceAll spaceRun
       (replaceAll notWordSpaceHyphen (toLowerCase text))))"

text \<open>
  The identifier as the specification words it, for comparison with \<open>generateId\<close>:
  lowercase, strip the characters that are neither word characters nor whitespace nor
  hyphens, collapse whitespace runs to single hyphens, trim the hyphens at both edges.
\<close>

definition trimHyphens :: "string \<Rightarrow> string" where
  "trimHyphens s =
     rev (dropWhile (\<lambda>c. c = CHR ''-'') (rev (dropWhile (\<lambda>c. c = CHR ''-'') s)))"

definition generateId_spec :: "string \<Rightarrow> string" where
  "generateId_spec text =
     trimHyphens (replaceAll spaceRun (replaceAll notWordSpaceHyphen (toLowerCase text)))"

text \<open>
  The characters an identifier is made of, and the shape the last replacement leaves: no
  hyphen next to a hyphen.
\<close>

definition idChar :: "char \<Rightarrow> bool" where
  "idChar c \<longleftrightarrow> isLowerAscii c \<or> isDigit c \<or> c = CHR ''_'' \<or> c = CHR ''-''"

fun noAdjacentHyphens :: "string \<Rightarrow> bool" where
  "noAdjacentHyphens [] = True"
| "noAdjacentHyphens [c] = True"
| "noAdjacentHyphens (c # d # cs) =
     (\<not> (c = CHR ''-'' \<and> d = CHR ''-'') \<and> noAdjacentHyphens (d # cs))"

text \<open>
  The tail \<open>\s+(.+)$\<close> of the heading and list-item patterns, on the input behind the
  marker: the greedy \<open>\s+\<close> takes the whole run of whitespace and \<open>(.+)\<close> the rest, which
  must reach the end of the line without a line terminator; when nothing is left behind
  the run, \<open>\s+\<close> gives its last character back to \<open>(.+)\<close>. The result is the captured
  group.
\<close>

definition spacesThenRest :: "string \<Rightarrow> string option" where
  "spacesThenRest s =
     (let run = takeWhile isWhiteSpace s;
          rest = dropWhile isWhiteSpace s
      in if run = [] then None
         else if rest \<noteq> [] then
           (if list_all (\<lambda>c. \<not> isLineTerminator c) rest then Some rest else None)
         else if 2 \<le> length run \<and> \<not> isLineTerminator (last run) then Some [last run]
         else None)"

definition digit :: "nat \<Rightarrow> string" where
  "digit n = [char_of (48 + n)]"

text \<open>
  \<open>_parseHeading\<close>, pattern \<open>/^(#{1,6})\s+(.+)$/\<close>: one to six \<open>#\<close> (a seventh \<open>#\<close> cannot be
  whitespace), then the tail above. Without a match the line is returned as it is.
\<close>

definition parseHeading :: "string \<Rightarrow> string" where
  "parseHeading line =
     (let hashes = takeWhile (\<lambda>c. c = CHR ''#'') line;
          behind = dropWhile (\<lambda>c. c = CHR ''#'') line
      in if 1 \<le> length hashes \<and> length hashes \<le> 6 then
           (case spacesThenRest behind of
              None \<Rightarrow> line
            | Some captured2 \<Rightarrow>
                (let level = length hashes;
                     text = trim captured2;
                     ident = generateId text
                 in ''<h'' @ digit level @ '' id='' @ dq @ ident @ dq @ ''>'' @ text
                    @ ''</h'' @ digit level @ ''>''))
         else line)"

subsection \<open>Block constructs\<close>

text \<open>The detectors of \<open>_parseBlocks\<close>, in the order it tries them.\<close>

definition isFenceStart :: "string \<Rightarrow> bool" where
  "isFenceStart line \<longleftrightarrow> startsWith (trim line) ''```''"

text \<open>\<open>/^#{1,6}\s/\<close>\<close>

definition isHeadingLine :: "string \<Rightarrow> bool" where
  "isHeadingLine line =
     (let hashes = takeWhile (\<lambda>c. c = CHR ''#'') line;
          behind = dropWhile (\<lambda>c. c = CHR ''#'') line
      in 1 \<le> length hashes \<and> length hashes \<le> 6
         \<and> (case behind of [] \<Rightarrow> False | c # cs \<Rightarrow> isWhiteSpace c))"

text \<open>\<open>/^(\*{3,}|-{3,}|_{3,})$/\<close>\<close>

definition isHorizontalRule :: "string \<Rightarrow> bool" where
  "isHorizontalRule line \<longleftrightarrow>
     3 \<le> length line
     \<and> (list_all (\<lambda>c. c = CHR ''*'') line
        \<or> list_all (\<lambda>c. c = CHR ''-'') line
        \<or> list_all (\<lambda>c. c = CHR ''_'') line)"

definition isBlockquoteLine :: "string \<Rightarrow> bool" where
  "isBlockquoteLine line \<longleftrightarrow> startsWith (trim line) ''>''"

definition isBullet :: "char \<Rightarrow> bool" where
  "isBullet c \<longleftrightarrow> c = CHR ''-'' \<or> c = CHR ''*'' \<or> c = CHR ''+''"

text \<open>\<open>/^[\s]*[-*+]\s/\<close> and \<open>/^[\s]*\d+\.\s/\<close>\<close>

definition isUnorderedItem :: "string \<Rightarrow> bool" where
  "isUnorderedItem line =
     (case dropWhile isWhiteSpace line of
        c # w # cs \<Rightarrow> isBullet c \<and> isWhiteSpace w
      | _ \<Rightarrow> False)"

definition isOrderedItem :: "string \<Rightarrow> bool" where
  "isOrderedItem line =
     (let body = dropWhile isWhiteSpace line
      in takeWhile isDigit body \<noteq> []
         \<and> (case dropWhile isDigit body of
              c # w # cs \<Rightarrow> c = CHR ''.'' \<and> isWhiteSpace w
            | _ \<Rightarrow> False))"

text \<open>\<open>/^[\s]*[-*+]\s+(.+)$/\<close> and \<open>/^[\s]*\d+\.\s+(.+)$/\<close>: the captured item text.\<close>

definition unorderedItem :: "string \<Rightarrow> string option" where
  "unorderedItem line =
     (case dropWhile isWhiteSpace line of
        [] \<Rightarrow> None
      | c # cs \<Rightarrow> if isBullet c then spacesThenRest cs else None)"

definition orderedItem :: "string \<Rightarrow> string option" where
  "orderedItem line =
     (let body = dropWhile isWhiteSpace line
      in if takeWhile isDigit body = [] then None
         else (case dropWhile isDigit body of
                 [] \<Rightarrow> None
               | c # cs \<Rightarrow> if c = CHR ''.'' then spacesThenRest cs else None))"

definition isTableRow :: "string \<Rightarrow> bool" where
  "isTableRow line \<longleftrightarrow> CHR ''|'' \<in> set line"

text \<open>
  \<open>_isTableDelimiter\<close>, pattern \<open>/^\|?CELL(\|CELL)+\|?$/\<close> on the trimmed line, where CELL
  is \<open>[\s]*:?-+:?[\s]*\<close>. A cell holds no pipe and at least one hyphen, so the pattern
  matches exactly when the pieces between the pipes, without one empty piece in front
  (a leading pipe) and one at the end (a closing pipe), are two or more cells.
\<close>

definition dropColon :: "string \<Rightarrow> string" where
  "dropColon s = (case s of [] \<Rightarrow> [] | c # cs \<Rightarrow> if c = CHR '':'' then cs else s)"

definition isDelimiterCell :: "string \<Rightarrow> bool" where
  "isDelimiterCell s =
     (let s1 = dropColon (dropWhile isWhiteSpace s);
          hyphens = takeWhile (\<lambda>c. c = CHR ''-'') s1;
          s2 = dropColon (dropWhile (\<lambda>c. c = CHR ''-'') s1)
      in hyphens \<noteq> [] \<and> dropWhile isWhiteSpace s2 = [])"

definition isTableDelimiter :: "string \<Rightarrow> bool" where
  "isTableDelimiter line =
     (let pieces = split (CHR ''|'') (trim line);
          pieces1 = (case pieces of [] \<Rightarrow> [] | p # ps \<Rightarrow> if p = [] then ps else pieces);
          pieces2 = (if pieces1 \<noteq> [] \<and> last pieces1 = [] then butlast pieces1 else pieces1)
      in 2 \<le> length pieces2 \<and> list_all isDelimiterCell pieces2)"

definition parseTableRow :: "string \<Rightarrow> string list" where
  "parseTableRow line = filter (\<lambda>cell. cell \<noteq> []) (map trim (split (CHR ''|'') line))"

text \<open>
  The consuming constructs return the HTML of the block and \<open>nextIndex\<close>. They are called
  with \<open>startIndex\<close> inside \<open>lines\<close> (and \<open>_parseTable\<close> with the delimiter line behind it):
  \<open>_parseBlocks\<close> checks that before each call. Each loop reads \<open>lines[i]\<close> behind the test
  \<open>i < lines.length\<close>.
\<close>

function parseCodeBlock_loop :: "string list \<Rightarrow> nat \<Rightarrow> string list \<Rightarrow> string list \<times> nat" where
  "parseCodeBlock_loop lines i code =
     (if i < length lines \<and> trim (lines ! i) \<noteq> ''```''
      then parseCodeBlock_loop lines (Suc i) (code @ [escapeHTML (lines ! i)])
      else (code, i))"
  by pat_completeness auto
termination
  by (relation "measure (\<lambda>(lines, i, code). length lines - i)") auto

declare parseCodeBlock_loop.simps [simp del]

definition parseCodeBlock :: "string list \<Rightarrow> nat \<Rightarrow> string \<times> nat" where
  "parseCodeBlock lines startIndex =
     (let language = trim (drop 3 (trim (lines ! startIndex)));
          (code, i) = parseCodeBlock_loop lines (startIndex + 1) [];
          langClass = (if language \<noteq> [] then '' class='' @ dq @ ''language-'' @ language @ dq
                       else [])
      in (''<pre><code'' @ langClass @ ''>'' @ join nl code @ ''</code></pre>'', i + 1))"

function parseBlockquote_loop :: "string list \<Rightarrow> nat \<Rightarrow> string list \<Rightarrow> string list \<times> nat" where
  "parseBlockquote_loop lines i content =
     (if i < length lines \<and> startsWith (trim (lines ! i)) ''>''
      then parseBlockquote_loop lines (Suc i) (content @ [trim (drop 1 (trim (lines ! i)))])
      else (content, i))"
  by pat_completeness auto
termination
  by (relation "measure (\<lambda>(lines, i, content). length lines - i)") auto

declare parseBlockquote_loop.simps [simp del]

definition parseBlockquote :: "string list \<Rightarrow> nat \<Rightarrow> string \<times> nat" where
  "parseBlockquote lines startIndex =
     (let (content, i) = parseBlockquote_loop lines startIndex []
      in (''<blockquote><p>'' @ join '' '' content @ ''</p></blockquote>'', i))"

function parseList_loop ::
  "(string \<Rightarrow> string option) \<Rightarrow> string list \<Rightarrow> nat \<Rightarrow> string list \<Rightarrow> string list \<times> nat" where
  "parseList_loop pattern lines i items =
     (if i < length lines then
        (case pattern (lines ! i) of
           None \<Rightarrow> (items, i)
         | Some captured1 \<Rightarrow>
             parseList_loop pattern lines (Suc i) (items @ [''<li>'' @ captured1 @ ''</li>'']))
      else (items, i))"
  by pat_completeness auto
termination
  by (relation "measure (\<lambda>(pattern, lines, i, items). length lines - i)") auto

declare parseList_loop.simps [simp del]

definition parseList :: "string list \<Rightarrow> nat \<Rightarrow> string \<Rightarrow> string \<times> nat" where
  "parseList lines startIndex type =
     (let pattern = (if type = ''ul'' then unorderedItem else orderedItem);
          (items, i) = parseList_loop pattern lines startIndex []
      in (''<'' @ type @ ''>'' @ nl @ join nl items @ nl @ ''</'' @ type @ ''>'', i))"

function parseTable_loop :: "string list \<Rightarrow> nat \<Rightarrow> string list list \<Rightarrow> string list list \<times> nat" where
  "parseTable_loop lines i rows =
     (if i < length lines \<and> isTableRow (lines ! i)
      then parseTable_loop lines (Suc i) (rows @ [parseTableRow (lines ! i)])
      else (rows, i))"
  by pat_completeness auto
termination
  by (relation "measure (\<lambda>(lines, i, rows). length lines - i)") auto

declare parseTable_loop.simps [simp del]

definition parseTable :: "string list \<Rightarrow> nat \<Rightarrow> string \<times> nat" where
  "parseTable lines startIndex =
     (let headers = parseTableRow (lines ! startIndex);
          (rows, i) = parseTable_loop lines (startIndex + 2) [];
          html1 = foldl (\<lambda>html header. html @ ''<th>'' @ header @ ''</th>'' @ nl)
                    (''<table>'' @ nl @ ''<thead>'' @ nl @ ''<tr>'' @ nl) headers;
          html2 = html1 @ ''</tr>'' @ nl @ ''</thead>'' @ nl @ ''<tbody>'' @ nl;
          html3 = foldl (\<lambda>html row.
                      foldl (\<lambda>html cell. html @ ''<td>'' @ cell @ ''</td>'' @ nl)
                        (html @ ''<tr>'' @ nl) row
                      @ ''</tr>'' @ nl)
                    html2 rows
      in (html3 @ ''</tbody>'' @ nl @ ''</table>'', i))"

text \<open>
  The loop of \<open>_parseBlocks\<close>. A list construct sets \<open>i\<close> to the \<open>nextIndex\<close> it is given,
  which need not be beyond \<open>i\<close>, so the loop is not known to end: not returning is the value
  \<open>None\<close>.
\<close>

partial_function (option) parseBlocks_loop ::
  "string list \<Rightarrow> nat \<Rightarrow> string list \<Rightarrow> string list option" where
  "parseBlocks_loop lines i html =
     (if i < length lines then
        (if isFenceStart (lines ! i) then
           parseBlocks_loop lines (snd (parseCodeBlock lines i))
             (html @ [fst (parseCodeBlock lines i)])
         else if isHeadingLine (lines ! i) then
           parseBlocks_loop lines (Suc i) (html @ [parseHeading (lines ! i)])
         else if isHorizontalRule (lines ! i) then
           parseBlocks_loop lines (Suc i) (html @ [''<hr>''])
         else if isBlockquoteLine (lines ! i) then
           parseBlocks_loop lines (snd (parseBlockquote lines i))
             (html @ [fst (parseBlockquote lines i)])
         else if isUnorderedItem (lines ! i) then
           parseBlocks_loop lines (snd (parseList lines i ''ul''))
             (html @ [fst (parseList lines i ''ul'')])
         else if isOrderedItem (lines ! i) then
           parseBlocks_loop lines (snd (parseList lines i ''ol''))
             (html @ [fst (parseList lines i ''ol'')])
         else if isTableRow (lines ! i) \<and> i + 1 < length lines
                 \<and> isTableDelimiter (lines ! (i + 1)) then
           parseBlocks_loop lines (snd (parseTable lines i))
             (html @ [fst (parseTable lines i)])
         else if trim (lines ! i) \<noteq> [] then
           parseBlocks_loop lines (Suc i) (html @ [''<p>'' @ lines ! i @ ''</p>''])
         else parseBlocks_loop lines (Suc i) html)
      else Some html)"

declare parseBlocks_loop.simps [code]

definition parseBlocks :: "string \<Rightarrow> string option" where
  "parseBlocks text =
     map_option (join nl) (parseBlocks_loop (split (CHR 0x0A) text) 0 [])"

text \<open>
  Where the scan stands: \<open>parseBlocks_turn\<close> is one turn of the loop of \<open>_parseBlocks\<close> at
  an index inside \<open>lines\<close>, giving the index and the blocks the next turn starts from, and
  \<open>parseBlocks_turns\<close> is the state after a number of turns (or at the end of the loop, if
  that comes earlier).
\<close>

definition parseBlocks_turn :: "string list \<Rightarrow> nat \<Rightarrow> string list \<Rightarrow> nat \<times> string list" where
  "parseBlocks_turn lines i html =
     (if isFenceStart (lines ! i) then
        (snd (parseCodeBlock lines i), html @ [fst (parseCodeBlock lines i)])
      else if isHeadingLine (lines ! i) then
        (Suc i, html @ [parseHeading (lines ! i)])
      else if isHorizontalRule (lines ! i) then
        (Suc i, html @ [''<hr>''])
      else if isBlockquoteLine (lines ! i) then
        (snd (parseBlockquote lines i), html @ [fst (parseBlockquote lines i)])
      else if isUnorderedItem (lines ! i) then
        (snd (parseList lines i ''ul''), html @ [fst (parseList lines i ''ul'')])
      else if isOrderedItem (lines ! i) then
        (snd (parseList lines i ''ol''), html @ [fst (parseList lines i ''ol'')])
      else if isTableRow (lines ! i) \<and> i + 1 < length lines
              \<and> isTableDelimiter (lines ! (i + 1)) then
        (snd (parseTable lines i), html @ [fst (parseTable lines i)])
      else if trim (lines ! i) \<noteq> [] then
        (Suc i, html @ [''<p>'' @ lines ! i @ ''</p>''])
      else (Suc i, html))"


subsection \<open>Inline constructs\<close>

text \<open>
  \<open>MarkdownParser.prototype._isValidURL\<close> and \<open>_isValidImageURL\<close>.
\<close>

definition parser_isValidURL :: "string \<Rightarrow> bool" where
  "parser_isValidURL url =
     (if url = [] then False
      else
        (let lowerUrl = trim (toLowerCase url)
         in if startsWith lowerUrl ''javascript:'' then False
            else if startsWith lowerUrl ''vbscript:'' then False
            else if startsWith lowerUrl ''data:'' then False
            else if startsWith url ''//'' then False
            else True))"

definition isValidImageURL :: "string \<Rightarrow> bool" where
  "isValidImageURL url =
     (if url = [] then False
      else
        (let lowerUrl = trim (toLowerCase url)
         in if startsWith lowerUrl ''javascript:'' then False
            else if startsWith lowerUrl ''vbscript:'' then False
            else if startsWith url ''//'' then False
            else if startsWith lowerUrl ''data:'' then startsWith lowerUrl ''data:image/''
            else True))"

text \<open>
  The patterns \<open>D(.+?)D\<close> for a delimiter \<open>D\<close> (\<open>**\<close>, \<open>__\<close>, \<open>*\<close>, \<open>_\<close>, \<open>~~\<close>): behind the
  opening delimiter the lazy group takes one character and then as few more as needed to
  stand before a closing delimiter; it takes no line terminator. \<open>lazyGroup\<close> gives the
  group and the input behind the closing delimiter.
\<close>

fun lazyGroup_close :: "string \<Rightarrow> string \<Rightarrow> string \<Rightarrow> (string \<times> string) option" where
  "lazyGroup_close d captured [] = None"
| "lazyGroup_close d captured (c # cs) =
     (if prefix d (c # cs) then Some (captured, drop (length d) (c # cs))
      else if isLineTerminator c then None
      else lazyGroup_close d (captured @ [c]) cs)"

definition lazyGroup :: "string \<Rightarrow> string \<Rightarrow> (string \<times> string) option" where
  "lazyGroup d s =
     (if prefix d s then
        (case drop (length d) s of
           [] \<Rightarrow> None
         | c # cs \<Rightarrow> if isLineTerminator c then None else lazyGroup_close d [c] cs)
      else None)"

definition wrapIn :: "string \<Rightarrow> string \<Rightarrow> string \<Rightarrow> (string \<times> string) option" where
  "wrapIn d tag s =
     (case lazyGroup d s of
        None \<Rightarrow> None
      | Some (captured1, rest) \<Rightarrow> Some (''<'' @ tag @ ''>'' @ captured1 @ ''</'' @ tag @ ''>'', rest))"

text \<open>Inline code, pattern \<open>/`([^`]+)`/\<close>.\<close>

definition inlineCode :: "string \<Rightarrow> (string \<times> string) option" where
  "inlineCode s =
     (case s of
        [] \<Rightarrow> None
      | c # cs \<Rightarrow>
          if c = CHR ''`'' \<and> takeWhile (\<lambda>x. x \<noteq> CHR ''`'') cs \<noteq> [] then
            (case dropWhile (\<lambda>x. x \<noteq> CHR ''`'') cs of
               [] \<Rightarrow> None
             | tick # rest \<Rightarrow>
                 Some (''<code>'' @ escapeHTML (takeWhile (\<lambda>x. x \<noteq> CHR ''`'') cs) @ ''</code>'',
                       rest))
          else None)"

text \<open>
  The common part of the link and image patterns behind the opening bracket,
  \<open>([^\]]+)\]\(([^)]+)\)\<close> (or \<open>[^\]]*\<close> when the first group may be empty): both groups and
  the input behind the closing parenthesis.
\<close>

definition bracketParen :: "bool \<Rightarrow> string \<Rightarrow> (string \<times> string \<times> string) option" where
  "bracketParen emptyOk s =
     (let captured1 = takeWhile (\<lambda>x. x \<noteq> CHR '']'') s
      in if captured1 = [] \<and> \<not> emptyOk then None
         else
           (case dropWhile (\<lambda>x. x \<noteq> CHR '']'') s of
              b # p # s2 \<Rightarrow>
                if p = CHR ''('' \<and> takeWhile (\<lambda>x. x \<noteq> CHR '')'') s2 \<noteq> [] then
                  (case dropWhile (\<lambda>x. x \<noteq> CHR '')'') s2 of
                     [] \<Rightarrow> None
                   | q # rest \<Rightarrow> Some (captured1, takeWhile (\<lambda>x. x \<noteq> CHR '')'') s2, rest))
                else None
            | _ \<Rightarrow> None))"

text \<open>Links, pattern \<open>/\[([^\]]+)\]\(([^)]+)\)/\<close>, with the callback of \<open>_parseInline\<close>.\<close>

definition inlineLink :: "string \<Rightarrow> (string \<times> string) option" where
  "inlineLink s =
     (case s of
        [] \<Rightarrow> None
      | c # cs \<Rightarrow>
          if c = CHR ''['' then
            (case bracketParen False cs of
               None \<Rightarrow> None
             | Some (text, url, rest) \<Rightarrow>
                 Some (if parser_isValidURL url
                       then ''<a href='' @ dq @ escapeHTML url @ dq @ ''>'' @ text @ ''</a>''
                       else text,
                       rest))
          else None)"

text \<open>Images, pattern \<open>/!\[([^\]]*)\]\(([^)]+)\)/\<close>, with its callback.\<close>

definition inlineImage :: "string \<Rightarrow> (string \<times> string) option" where
  "inlineImage s =
     (case s of
        c # b # cs \<Rightarrow>
          if c = CHR ''!'' \<and> b = CHR ''['' then
            (case bracketParen True cs of
               None \<Rightarrow> None
             | Some (alt, url, rest) \<Rightarrow>
                 Some (if isValidImageURL url
                       then ''<img src='' @ dq @ escapeHTML url @ dq @ '' alt='' @ dq
                            @ escapeHTML alt @ dq @ ''>''
                       else [],
                       rest))
          else None
      | _ \<Rightarrow> None)"

text \<open>\<open>_parseInline\<close>: the eight replacements in the order of the source.\<close>

definition parseInline :: "string \<Rightarrow> string" where
  "parseInline html0 =
     (let html1 = replaceAll (wrapIn ''**'' ''strong'') html0;
          html2 = replaceAll (wrapIn ''__'' ''strong'') html1;
          html3 = replaceAll (wrapIn ''*'' ''em'') html2;
          html4 = replaceAll (wrapIn ''_'' ''em'') html3;
          html5 = replaceAll (wrapIn ''~~'' ''s'') html4;
          html6 = replaceAll inlineCode html5;
          html7 = replaceAll inlineLink html6;
          html8 = replaceAll inlineImage html7
      in html8)"

subsection \<open>Plugins and the pipeline\<close>

text \<open>
  A plugin: its \<open>name\<close>, its \<open>stage\<close> (\<open>None\<close> when the field is not set) and its \<open>process\<close>
  function, which returns the new content or throws.
\<close>

datatype error = PluginThrew string

record 'cfg plugin =
  plugin_name :: string
  plugin_stage :: "string option"
  plugin_process :: "string \<Rightarrow> 'cfg \<Rightarrow> error + string"

record 'cfg markdownParser =
  config :: 'cfg
  plugins :: "'cfg plugin list"

text \<open>\<open>registerPlugin\<close>: a plugin record has its \<open>process\<close> function, so it is pushed.\<close>

definition registerPlugin :: "'cfg markdownParser \<Rightarrow> 'cfg plugin \<Rightarrow> 'cfg markdownParser" where
  "registerPlugin parser plugin = parser\<lparr>plugins := plugins parser @ [plugin]\<rparr>"

text \<open>
  The test of \<open>_applyPlugins\<close>, \<open>plugin.stage === stage || !plugin.stage\<close>: the stage is
  the requested one, or it is falsy (not set, or the empty string).
\<close>

definition stageMatches :: "'cfg plugin \<Rightarrow> string \<Rightarrow> bool" where
  "stageMatches plugin requested \<longleftrightarrow>
     plugin_stage plugin = Some requested
     \<or> plugin_stage plugin = None \<or> plugin_stage plugin = Some []"

text \<open>The loop of \<open>_applyPlugins\<close> over the plugins from the first to the last.\<close>

fun applyPlugins_loop ::
  "'cfg \<Rightarrow> string \<Rightarrow> 'cfg plugin list \<Rightarrow> string \<Rightarrow> error + string" where
  "applyPlugins_loop cfg requested [] result = Inr result"
| "applyPlugins_loop cfg requested (plugin # rest) result =
     (if stageMatches plugin requested then
        (case plugin_process plugin result cfg of
           Inl e \<Rightarrow> Inl e
         | Inr result' \<Rightarrow> applyPlugins_loop cfg requested rest result')
      else applyPlugins_loop cfg requested rest result)"

definition applyPlugins :: "'cfg markdownParser \<Rightarrow> string \<Rightarrow> string \<Rightarrow> error + string" where
  "applyPlugins parser requested content =
     applyPlugins_loop (config parser) requested (plugins parser) content"

text \<open>
  \<open>MarkdownParser.prototype.parse\<close>. The outer \<open>None\<close> is \<open>_parseBlocks\<close> not returning;
  \<open>Inl\<close> is a plugin that threw.
\<close>

definition parse :: "'cfg markdownParser \<Rightarrow> string \<Rightarrow> (error + string) option" where
  "parse parser markdown =
     (if markdown = [] then Some (Inr [])
      else
        (case applyPlugins parser ''preprocess'' markdown of
           Inl e \<Rightarrow> Some (Inl e)
         | Inr html1 \<Rightarrow>
             (case parseBlocks html1 of
                None \<Rightarrow> None
              | Some html2 \<Rightarrow>
                  Some (applyPlugins parser ''postprocess'' (parseInline html2)))))"

text \<open>
  A plugin for the examples, after the custom plugin of the README: it returns the
  content with a marker appended.
\<close>

definition markerProcess :: "string \<Rightarrow> unit \<Rightarrow> error + string" where
  "markerProcess content cfg = Inr (content @ ''<!--seen-->'')"

definition wrapProcess :: "string \<Rightarrow> unit \<Rightarrow> error + string" where
  "wrapProcess content cfg = Inr (''<div>'' @ content @ ''</div>'')"

section \<open>Sanitizer: results\<close>

subsection \<open>The attribute loop and the child loop never read out of range\<close>


lemma length_removeAttribute: "length as \<le> Suc (length (removeAttribute n as))"
  by (induction as) auto


lemma sanitizeAttributes_loop_total:
  "i \<le> length attrs \<Longrightarrow>
   \<exists>r. sanitizeAttributes_loop pol (ArrayValue names) i attrs = Some r"
proof (induction i arbitrary: attrs)
  case 0
  show ?case by simp
next
  case (Suc i)
  have rm: "\<exists>r. sanitizeAttributes_loop pol (ArrayValue names) i (removeAttribute n attrs)
      = Some r" for n
    using Suc.prems length_removeAttribute [of attrs n] by (intro Suc.IH) simp
  have keep: "\<exists>r. sanitizeAttributes_loop pol (ArrayValue names) i attrs = Some r"
    using Suc.prems by (intro Suc.IH) simp
  have href: "\<not> startsWith ''href'' ''on''" and src: "\<not> startsWith ''src'' ''on''"
    by (simp_all add: startsWith_def)
  show ?case
    using Suc.prems rm keep href src
    by (auto simp add: Let_def)
qed


lemma childLoop_closed:
  assumes "i \<le> length cs" and "\<forall>x \<in> set (take i cs). \<exists>r. f x = Some r"
  shows "childLoop f i cs = Some (concat (map (\<lambda>x. the (f x)) (take i cs)) @ drop i cs)"
  using assms
proof (induction i arbitrary: cs)
  case 0
  show ?case by simp
next
  case (Suc i)
  from Suc.prems have lt: "i < length cs" by simp
  then have tk: "take (Suc i) cs = take i cs @ [cs ! i]"
    by (simp add: take_Suc_conv_app_nth)
  with Suc.prems obtain r where r: "f (cs ! i) = Some r" by auto
  let ?cs' = "take i cs @ r @ drop (Suc i) cs"
  from lt have tk': "take i ?cs' = take i cs" and dr': "drop i ?cs' = r @ drop (Suc i) cs"
    by simp_all
  have "childLoop f i ?cs' = Some (concat (map (\<lambda>x. the (f x)) (take i ?cs')) @ drop i ?cs')"
  proof (rule Suc.IH)
    show "i \<le> length ?cs'" using lt by simp
    have "set (take i cs) \<subseteq> set (take (Suc i) cs)" unfolding tk by auto
    then show "\<forall>x \<in> set (take i ?cs'). \<exists>r. f x = Some r"
      unfolding tk' using Suc.prems(2) by blast
  qed
  with lt r tk tk' dr' show ?case by simp
qed

text \<open>
  Under a policy whose allowed tags all have an array whitelist the walk never raises; the
  default whitelists are such a policy. With an allowed tag that names an inherited member
  (\<open>constructor\<close>) the walk raises on the first attribute of such an element.
\<close>

lemma arrayWhitelists_lookup:
  "arrayWhitelists pol \<Longrightarrow> tag \<in> set (allowedTags pol) \<Longrightarrow>
   \<exists>names. lookupAllowedAttributes pol tag = ArrayValue names"
  by (cases "lookupAllowedAttributes pol tag") (auto simp: arrayWhitelists_def list_all_iff)

lemma sanitizeNode_visit_total:
  "arrayWhitelists pol \<Longrightarrow> \<exists>r. sanitizeElement pol t attrs kids = Some r"
  "arrayWhitelists pol \<Longrightarrow> \<exists>r. sanitizeNode_visit pol n = Some r"
proof (induction pol t attrs kids and pol n rule: sanitizeElement_sanitizeNode_visit.induct)
  case (1 pol elTagName attrs kids)
  show ?case
  proof (cases "toLowerCase elTagName \<in> set (allowedTags pol)")
    case False
    then show ?thesis by simp
  next
    case True
    obtain names where "lookupAllowedAttributes pol (toLowerCase elTagName) = ArrayValue names"
      using arrayWhitelists_lookup [OF "1.prems" True] by blast
    then obtain attrs' where
      a: "sanitizeAttributes pol (toLowerCase elTagName) attrs = Some attrs'"
      using sanitizeAttributes_loop_total [of "length attrs" attrs pol names]
      by (auto simp: sanitizeAttributes_def)
    have "\<forall>x \<in> set (take (length kids) kids). \<exists>r. sanitizeNode_visit pol x = Some r"
      using 1 True a by auto
    then have "\<exists>r. childLoop (sanitizeNode_visit pol) (length kids) kids = Some r"
      using childLoop_closed [of "length kids" kids "sanitizeNode_visit pol"] by simp
    with True a show ?thesis by auto
  qed
qed simp_all

lemma sanitizeNode_closed:
  "arrayWhitelists pol \<Longrightarrow>
   sanitizeNode pol cs = Some (concat (map (\<lambda>x. the (sanitizeNode_visit pol x)) cs))"
  unfolding sanitizeNode_def
  using childLoop_closed [of "length cs" cs "sanitizeNode_visit pol"] sanitizeNode_visit_total(2)
  by simp

lemma sanitize_returns: "arrayWhitelists pol \<Longrightarrow> \<exists>r. sanitize pol doc html = Some r"
  by (cases doc) (simp_all add: sanitize_def sanitizeNode_closed)


lemma inherited_member_raises:
  "sanitizeNode (initializeWhitelists\<lparr>allowedTags := [''constructor'', ''div'']\<rparr>)
     [Element ''CONSTRUCTOR'' [(''onclick'', ''x'')] [TextNode ''y'']]
   = None"
  by code_simp

text \<open>
  C1. The walk leaves elements with a disallowed tag in its output: unwrapping puts the
  children of a disallowed element at the indices the loop has already passed, so they are
  never visited. For \<open><b><script>alert(1)</script></b>\<close> (a \<open>B\<close> element around a \<open>SCRIPT\<close>
  element) the \<open>B\<close> is unwrapped and the \<open>SCRIPT\<close> element, whose tag is not allowed,
  stays.
\<close>

theorem sanitizeNode_keeps_nested_disallowed:
  "sanitizeNode initializeWhitelists
     [Element ''B'' [] [Element ''SCRIPT'' [] [TextNode ''alert(1)'']]]
   = Some [Element ''SCRIPT'' [] [TextNode ''alert(1)'']]
   \<and> toLowerCase ''SCRIPT'' \<notin> set (allowedTags initializeWhitelists)"
  by code_simp

text \<open>
  C3. Sanitizing twice is not sanitizing once: on \<open><b><i>x</i></b>\<close> the first walk
  unwraps \<open>B\<close> and leaves the \<open>I\<close> element unvisited, the second walk unwraps that
  \<open>I\<close>.
\<close>

theorem sanitizeNode_twice_differs:
  "sanitizeNode initializeWhitelists [Element ''B'' [] [Element ''I'' [] [TextNode ''x'']]]
   = Some [Element ''I'' [] [TextNode ''x'']]
   \<and> sanitizeNode initializeWhitelists [Element ''I'' [] [TextNode ''x'']]
   = Some [TextNode ''x'']"
  by code_simp



text \<open>
  C2. With no DOM document (the Node.js path, where the container is the stub with an empty
  \<open>childNodes\<close>), \<open>sanitize\<close> returns every non-empty string unchanged, under any policy.
\<close>

theorem sanitize_no_document_identity:
  "html \<noteq> [] \<Longrightarrow> sanitize pol None html = Some html"
  by (simp add: sanitize_def sanitizeNode_def)

theorem sanitize_no_document_identity_witness:
  "sanitize initializeWhitelists None ''<script>alert(1)</script>''
     = Some ''<script>alert(1)</script>''"
  using sanitize_no_document_identity
    [of "''<script>alert(1)</script>''" initializeWhitelists]
  by simp


section \<open>MarkdownParser: results\<close>

subsection \<open>Blocks\<close>


lemma parseTable_loop_takeWhile:
  "parseTable_loop lines i rows =
     (rows @ map parseTableRow (takeWhile isTableRow (drop i lines)),
      i + length (takeWhile isTableRow (drop i lines)))"
proof (induction lines i rows rule: parseTable_loop.induct)
  case (1 lines i rows)
  show ?case
  proof (cases "i < length lines \<and> isTableRow (lines ! i)")
    case True
    then have d: "drop i lines = lines ! i # drop (Suc i) lines"
      by (simp add: Cons_nth_drop_Suc)
    from True 1 show ?thesis
      by (subst parseTable_loop.simps) (simp add: d)
  next
    case False
    show ?thesis
    proof (cases "i < length lines")
      case True
      then have d: "drop i lines = lines ! i # drop (Suc i) lines"
        by (simp add: Cons_nth_drop_Suc)
      from True False show ?thesis
        by (subst parseTable_loop.simps) (simp add: d)
    next
      case False
      then show ?thesis
        by (subst parseTable_loop.simps) simp
    qed
  qed
qed




text \<open>
  The scan does not always return: a list marker with nothing behind it (\<open>- \<close>) passes
  the list detector but not the item pattern, so \<open>_parseList\<close> takes no line, hands back the
  index it was given, and the loop stands still, whatever follows.
\<close>

lemma empty_item_detectors:
  "isUnorderedItem ''- '' \<and> \<not> isFenceStart ''- '' \<and> \<not> isHeadingLine ''- ''
   \<and> \<not> isHorizontalRule ''- '' \<and> \<not> isBlockquoteLine ''- ''
   \<and> unorderedItem ''- '' = None"
  by code_simp

lemma empty_item_turn:
  assumes "i < length lines" and "lines ! i = ''- ''"
  shows "parseBlocks_turn lines i html = (i, html @ [''<ul>'' @ nl @ nl @ ''</ul>''])"
proof -
  have "parseList_loop unorderedItem lines i [] = ([], i)"
    using assms empty_item_detectors by (subst parseList_loop.simps) simp
  then have "parseList lines i ''ul'' = (''<ul>'' @ nl @ nl @ ''</ul>'', i)"
    by (simp add: parseList_def)
  with assms(2) empty_item_detectors show ?thesis
    by (simp add: parseBlocks_turn_def)
qed

lemma parseBlocks_loop_empty_item:
  assumes "parseBlocks_loop lines i html = Some y"
  shows "\<not> (i < length lines \<and> lines ! i = ''- '')"
proof (rule parseBlocks_loop.raw_induct
    [where P = "\<lambda>lines i html y. \<not> (i < length lines \<and> lines ! i = ''- '')", OF _ assms],
    goal_cases)
  case (1 f lines i html y)
  show ?case
  proof
    assume a: "i < length lines \<and> lines ! i = ''- ''"
    then have turn: "parseBlocks_turn lines i html = (i, html @ [''<ul>'' @ nl @ nl @ ''</ul>''])"
      by (simp add: empty_item_turn)
    have "isUnorderedItem (lines ! i) \<and> \<not> isFenceStart (lines ! i)
        \<and> \<not> isHeadingLine (lines ! i) \<and> \<not> isHorizontalRule (lines ! i)
        \<and> \<not> isBlockquoteLine (lines ! i)"
      using a empty_item_detectors by simp
    with 1(2) a have "f lines (snd (parseList lines i ''ul''))
        (html @ [fst (parseList lines i ''ul'')]) = Some y"
      by simp
    moreover from turn a have "snd (parseList lines i ''ul'') = i"
      using \<open>isUnorderedItem (lines ! i) \<and> \<not> isFenceStart (lines ! i)
        \<and> \<not> isHeadingLine (lines ! i) \<and> \<not> isHorizontalRule (lines ! i)
        \<and> \<not> isBlockquoteLine (lines ! i)\<close>
      by (simp add: parseBlocks_turn_def)
    ultimately have "f lines i (html @ [fst (parseList lines i ''ul'')]) = Some y"
      by simp
    from 1(1) [OF this] a show False by simp
  qed
qed

lemma parseBlocks_empty_list_item_never_returns:
  "parseBlocks ''- '' = None"
  "parseBlocks (''- '' @ nl @ ''```'' @ nl @ ''x'') = None"
proof -
  have s1: "split (CHR 0x0A) ''- '' = [''- '']" by code_simp
  have "parseBlocks_loop [''- ''] 0 [] = None"
    using parseBlocks_loop_empty_item [of "[''- '']" 0 "[]"]
    by (cases "parseBlocks_loop [''- ''] 0 []") auto
  with s1 show "parseBlocks ''- '' = None" by (simp add: parseBlocks_def)
  have s2: "split (CHR 0x0A) (''- '' @ nl @ ''```'' @ nl @ ''x'') = [''- '', ''```'', ''x'']"
    by code_simp
  have "parseBlocks_loop [''- '', ''```'', ''x''] 0 [] = None"
    using parseBlocks_loop_empty_item [of "[''- '', ''```'', ''x'']" 0 "[]"]
    by (cases "parseBlocks_loop [''- '', ''```'', ''x''] 0 []") auto
  with s2 show "parseBlocks (''- '' @ nl @ ''```'' @ nl @ ''x'') = None"
    by (simp add: parseBlocks_def)
qed





text \<open>
  C10. The three lines \<open>|A|B|\<close>, \<open>|-|-|\<close>, \<open>|1|2|\<close> give a table with the header cells
  \<open><th>A</th>\<close>, \<open><th>B</th>\<close> and one body row with the cells \<open><td>1</td>\<close>, \<open><td>2</td>\<close>. The
  header cells are the pipe-split, trimmed, non-empty cells of the first line; the second
  line is a delimiter row and is skipped; and the row loop, from any index, takes every
  following line that holds a pipe, up to the first line that holds none, each split the
  same way.
\<close>

theorem table_scenario:
  "parseBlocks (''|A|B|'' @ nl @ ''|-|-|'' @ nl @ ''|1|2|'')
     = Some (''<table>'' @ nl @ ''<thead>'' @ nl @ ''<tr>'' @ nl
             @ ''<th>A</th>'' @ nl @ ''<th>B</th>'' @ nl
             @ ''</tr>'' @ nl @ ''</thead>'' @ nl @ ''<tbody>'' @ nl
             @ ''<tr>'' @ nl @ ''<td>1</td>'' @ nl @ ''<td>2</td>'' @ nl @ ''</tr>'' @ nl
             @ ''</tbody>'' @ nl @ ''</table>'')
   \<and> parseTableRow ''|A|B|'' = [''A'', ''B'']
   \<and> isTableDelimiter ''|-|-|''
   \<and> parseTableRow ''|1|2|'' = [''1'', ''2'']
   \<and> parseTable_loop lines i rows =
       (rows @ map parseTableRow (takeWhile isTableRow (drop i lines)),
        i + length (takeWhile isTableRow (drop i lines)))"
proof (intro conjI)
  show "parseBlocks (''|A|B|'' @ nl @ ''|-|-|'' @ nl @ ''|1|2|'')
     = Some (''<table>'' @ nl @ ''<thead>'' @ nl @ ''<tr>'' @ nl
             @ ''<th>A</th>'' @ nl @ ''<th>B</th>'' @ nl
             @ ''</tr>'' @ nl @ ''</thead>'' @ nl @ ''<tbody>'' @ nl
             @ ''<tr>'' @ nl @ ''<td>1</td>'' @ nl @ ''<td>2</td>'' @ nl @ ''</tr>'' @ nl
             @ ''</tbody>'' @ nl @ ''</table>'')"
    by code_simp
  show "parseTableRow ''|A|B|'' = [''A'', ''B'']" by code_simp
  show "isTableDelimiter ''|-|-|''" by code_simp
  show "parseTableRow ''|1|2|'' = [''1'', ''2'']" by code_simp
  show "parseTable_loop lines i rows =
       (rows @ map parseTableRow (takeWhile isTableRow (drop i lines)),
        i + length (takeWhile isTableRow (drop i lines)))"
    by (rule parseTable_loop_takeWhile)
qed

subsection \<open>Heading identifiers\<close>

lemma toLowerChar_not_upper: "\<not> isUpperAscii (toLowerChar c)"
  by (auto simp: toLowerChar_def isUpperAscii_def Let_def)

lemma toLowerChar_idChar: "idChar c \<Longrightarrow> toLowerChar c = c"
  by (auto simp: toLowerChar_def idChar_def isLowerAscii_def isDigit_def Let_def)

lemma idChar_not_space: "idChar c \<Longrightarrow> \<not> isWhiteSpace c"
  by (auto simp: idChar_def isWhiteSpace_def isLowerAscii_def isDigit_def)

lemma idChar_kept: "idChar c \<Longrightarrow> isWordChar c \<or> isWhiteSpace c \<or> c = CHR ''-''"
  by (auto simp: idChar_def isWordChar_def)

lemma kept_idChar:
  "isWordChar c \<or> isWhiteSpace c \<or> c = CHR ''-'' \<Longrightarrow> \<not> isUpperAscii c \<Longrightarrow>
   \<not> isWhiteSpace c \<Longrightarrow> idChar c"
  by (auto simp: idChar_def isWordChar_def)

lemma replaceAll_notWordSpaceHyphen:
  "replaceAll notWordSpaceHyphen s
     = filter (\<lambda>c. isWordChar c \<or> isWhiteSpace c \<or> c = CHR ''-'') s"
  by (induction s) (auto simp: notWordSpaceHyphen_def)

lemma length_dropWhile_less:
  "takeWhile P s \<noteq> [] \<Longrightarrow> length (dropWhile P s) < length s"
  by (cases s) (auto simp: length_dropWhile_le less_Suc_eq_le split: if_splits)

lemma replaceAll_spaceRun_set:
  "set (replaceAll spaceRun s) \<subseteq> {c \<in> set s. \<not> isWhiteSpace c} \<union> {CHR ''-''}"
proof (induction s rule: length_induct)
  case (1 s)
  show ?case
  proof (cases s)
    case Nil
    then show ?thesis by simp
  next
    case (Cons c cs)
    show ?thesis
    proof (cases "isWhiteSpace c")
      case True
      let ?rest = "dropWhile isWhiteSpace (c # cs)"
      have less: "length ?rest < length s"
        using True Cons length_dropWhile_less [of isWhiteSpace "c # cs"] by simp
      have "set (replaceAll spaceRun ?rest)
          \<subseteq> {x \<in> set ?rest. \<not> isWhiteSpace x} \<union> {CHR ''-''}"
        using 1 less by blast
      moreover have "set ?rest \<subseteq> set s"
        unfolding Cons by (rule set_dropWhileD [THEN subsetI])
      moreover have "replaceAll spaceRun s = ''-'' @ replaceAll spaceRun ?rest"
        using True less Cons by (simp add: spaceRun_def)
      ultimately show ?thesis by auto
    next
      case False
      have "set (replaceAll spaceRun cs) \<subseteq> {x \<in> set cs. \<not> isWhiteSpace x} \<union> {CHR ''-''}"
        using 1 Cons by simp
      moreover have "replaceAll spaceRun s = c # replaceAll spaceRun cs"
        using False Cons by (simp add: spaceRun_def)
      ultimately show ?thesis using False Cons by auto
    qed
  qed
qed


lemma replaceAll_spaceRun_id:
  "\<forall>c \<in> set s. \<not> isWhiteSpace c \<Longrightarrow> replaceAll spaceRun s = s"
  by (induction s) (auto simp: spaceRun_def)

lemma replaceAll_hyphenRun_set: "set (replaceAll hyphenRun s) \<subseteq> set s"
proof (induction s rule: length_induct)
  case (1 s)
  show ?case
  proof (cases s)
    case Nil
    then show ?thesis by simp
  next
    case (Cons c cs)
    show ?thesis
    proof (cases "c = CHR ''-''")
      case True
      let ?rest = "dropWhile (\<lambda>c. c = CHR ''-'') (c # cs)"
      have less: "length ?rest < length s"
        using True Cons length_dropWhile_less [of "\<lambda>c. c = CHR ''-''" "c # cs"] by simp
      have "set (replaceAll hyphenRun ?rest) \<subseteq> set ?rest"
        using 1 less by blast
      moreover have "set ?rest \<subseteq> set s"
        unfolding Cons by (rule set_dropWhileD [THEN subsetI])
      moreover have "replaceAll hyphenRun s = ''-'' @ replaceAll hyphenRun ?rest"
        using True less Cons by (simp add: hyphenRun_def)
      ultimately show ?thesis using True Cons by auto
    next
      case False
      have "set (replaceAll hyphenRun cs) \<subseteq> set cs"
        using 1 Cons by simp
      moreover have "replaceAll hyphenRun s = c # replaceAll hyphenRun cs"
        using False Cons by (simp add: hyphenRun_def)
      ultimately show ?thesis using Cons by auto
    qed
  qed
qed

lemma replaceAll_hyphenRun_shape:
  "noAdjacentHyphens (replaceAll hyphenRun s)
   \<and> ((s = [] \<or> hd s \<noteq> CHR ''-'') \<longrightarrow>
        (replaceAll hyphenRun s = [] \<or> hd (replaceAll hyphenRun s) \<noteq> CHR ''-''))"
proof (induction s rule: length_induct)
  case (1 s)
  show ?case
  proof (cases s)
    case Nil
    then show ?thesis by simp
  next
    case (Cons c cs)
    show ?thesis
    proof (cases "c = CHR ''-''")
      case True
      let ?rest = "dropWhile (\<lambda>c. c = CHR ''-'') (c # cs)"
      let ?out = "replaceAll hyphenRun ?rest"
      have less: "length ?rest < length s"
        using True Cons length_dropWhile_less [of "\<lambda>c. c = CHR ''-''" "c # cs"] by simp
      have head: "?rest = [] \<or> hd ?rest \<noteq> CHR ''-''"
        using hd_dropWhile [of "\<lambda>c. c = CHR ''-''" "c # cs"] by blast
      from 1 less have ih: "noAdjacentHyphens ?out
          \<and> ((?rest = [] \<or> hd ?rest \<noteq> CHR ''-'') \<longrightarrow> (?out = [] \<or> hd ?out \<noteq> CHR ''-''))"
        by blast
      with head have out: "noAdjacentHyphens ?out" "?out = [] \<or> hd ?out \<noteq> CHR ''-''"
        by blast+
      have eq: "replaceAll hyphenRun s = CHR ''-'' # ?out"
        using True less Cons by (simp add: hyphenRun_def)
      from out have "noAdjacentHyphens (CHR ''-'' # ?out)"
        by (cases ?out) auto
      with eq True Cons show ?thesis by simp
    next
      case False
      let ?out = "replaceAll hyphenRun cs"
      from 1 Cons have ih: "noAdjacentHyphens ?out" by simp
      have eq: "replaceAll hyphenRun s = c # ?out"
        using False Cons by (simp add: hyphenRun_def)
      from ih False have "noAdjacentHyphens (c # ?out)"
        by (cases ?out) auto
      with eq False Cons show ?thesis by simp
    qed
  qed
qed

lemma replaceAll_hyphenRun_id:
  "noAdjacentHyphens s \<Longrightarrow> replaceAll hyphenRun s = s"
proof (induction s rule: noAdjacentHyphens.induct)
  case 1
  show ?case by simp
next
  case (2 c)
  show ?case by (simp add: hyphenRun_def)
next
  case (3 c d cs)
  then have ih: "replaceAll hyphenRun (d # cs) = d # cs" by simp
  show ?case
  proof (cases "c = CHR ''-''")
    case True
    with 3 have "d \<noteq> CHR ''-''" by simp
    with True have "hyphenRun (c # d # cs) = Some (''-'', d # cs)"
      by (simp add: hyphenRun_def)
    with True ih show ?thesis by simp
  next
    case False
    then have "hyphenRun (c # d # cs) = None"
      by (simp add: hyphenRun_def)
    with ih show ?thesis by simp
  qed
qed

lemma trim_no_space: "\<forall>c \<in> set s. \<not> isWhiteSpace c \<Longrightarrow> trim s = s"
proof -
  assume a: "\<forall>c \<in> set s. \<not> isWhiteSpace c"
  then have "dropWhile isWhiteSpace s = s" by (cases s) auto
  moreover from a have "dropWhile isWhiteSpace (rev s) = rev s" by (cases "rev s") auto
  ultimately show ?thesis by (simp add: trim_def)
qed

lemma generateId_chars:
  "\<forall>c \<in> set (replaceAll hyphenRun (replaceAll spaceRun
       (replaceAll notWordSpaceHyphen (toLowerCase text)))). idChar c"
proof
  fix c
  let ?a = "replaceAll notWordSpaceHyphen (toLowerCase text)"
  assume "c \<in> set (replaceAll hyphenRun (replaceAll spaceRun ?a))"
  then have "c \<in> set (replaceAll spaceRun ?a)"
    using replaceAll_hyphenRun_set by blast
  then have "c = CHR ''-'' \<or> (c \<in> set ?a \<and> \<not> isWhiteSpace c)"
    using replaceAll_spaceRun_set [of ?a] by blast
  then show "idChar c"
  proof
    assume "c = CHR ''-''"
    then show ?thesis by (simp add: idChar_def)
  next
    assume h: "c \<in> set ?a \<and> \<not> isWhiteSpace c"
    then have "c \<in> set (filter (\<lambda>c. isWordChar c \<or> isWhiteSpace c \<or> c = CHR ''-'')
        (toLowerCase text))"
      by (auto simp: replaceAll_notWordSpaceHyphen)
    then have kept: "isWordChar c \<or> isWhiteSpace c \<or> c = CHR ''-''"
      and low: "c \<in> set (toLowerCase text)"
      by auto
    from low have "\<not> isUpperAscii c"
      using toLowerChar_not_upper by (auto simp: toLowerCase_def)
    with kept h show ?thesis using kept_idChar by blast
  qed
qed

lemma generateId_fixpoint:
  assumes "\<forall>c \<in> set r. idChar c" and "noAdjacentHyphens r"
  shows "generateId r = r"
proof -
  have low: "toLowerCase r = r"
    using assms(1) toLowerChar_idChar by (simp add: toLowerCase_def map_idI)
  have strip: "replaceAll notWordSpaceHyphen r = r"
    using assms(1) idChar_kept by (simp add: replaceAll_notWordSpaceHyphen)
  have nospace: "\<forall>c \<in> set r. \<not> isWhiteSpace c"
    using assms(1) idChar_not_space by blast
  show ?thesis
    by (simp add: generateId_def low strip replaceAll_spaceRun_id [OF nospace]
        replaceAll_hyphenRun_id [OF assms(2)] trim_no_space [OF nospace])
qed


text \<open>
  The closing \<open>trim()\<close> of \<open>_generateId\<close> never removes anything: by the time it runs every
  whitespace character has become a hyphen. And deriving the identifier of an identifier
  gives it back.
\<close>

lemma generateId_final_trim_removes_nothing:
  "generateId text =
     replaceAll hyphenRun (replaceAll spaceRun
       (replaceAll notWordSpaceHyphen (toLowerCase text)))"
proof -
  let ?r = "replaceAll hyphenRun (replaceAll spaceRun
       (replaceAll notWordSpaceHyphen (toLowerCase text)))"
  have "\<forall>c \<in> set ?r. idChar c" by (rule generateId_chars)
  then have nospace: "\<forall>c \<in> set ?r. \<not> isWhiteSpace c"
    using idChar_not_space by blast
  show ?thesis
    by (simp add: generateId_def trim_no_space [OF nospace])
qed

lemma generateId_idempotent: "generateId (generateId text) = generateId text"
proof -
  let ?r = "replaceAll hyphenRun (replaceAll spaceRun
       (replaceAll notWordSpaceHyphen (toLowerCase text)))"
  have chars: "\<forall>c \<in> set ?r. idChar c" by (rule generateId_chars)
  have shape: "noAdjacentHyphens ?r"
    using replaceAll_hyphenRun_shape by blast
  from chars shape have fixed: "generateId ?r = ?r"
    by (rule generateId_fixpoint)
  have eq: "generateId text = ?r"
    by (rule generateId_final_trim_removes_nothing)
  show ?thesis
    unfolding eq by (rule fixed)
qed

text \<open>
  C6. The identifier keeps hyphens at the edges, where the derivation the claim states trims
  them: the closing \<open>trim()\<close> comes after the whitespace has been replaced and finds nothing
  to take. The heading \<open># Hello World !\<close> gets the identifier \<open>hello-world-\<close>; lowercase,
  strip, collapse whitespace runs to hyphens and trim the edge hyphens gives \<open>hello-world\<close>.
\<close>

theorem generateId_keeps_edge_hyphens:
  "generateId ''Hello World !'' = ''hello-world-''
   \<and> generateId_spec ''Hello World !'' = ''hello-world''
   \<and> parseHeading ''# Hello World !''
       = ''<h1 id='' @ dq @ ''hello-world-'' @ dq @ ''>Hello World !</h1>''"
  by code_simp

subsection \<open>Inline\<close>

text \<open>
  What \<open>_parseInline\<close> does with the constructs the URL validation rejects, where no other
  inline markup is involved: a link leaves its text, an image without alt text leaves
  nothing. The rejected link URLs are the empty one, those that begin (trimmed, in lower
  case) with \<open>javascript:\<close>, \<open>vbscript:\<close> or \<open>data:\<close>, and those that begin with \<open>//\<close>.
\<close>

lemma rejected_urls:
  "\<not> parser_isValidURL url \<longleftrightarrow>
     url = []
     \<or> startsWith (trim (toLowerCase url)) ''javascript:''
     \<or> startsWith (trim (toLowerCase url)) ''vbscript:''
     \<or> startsWith (trim (toLowerCase url)) ''data:''
     \<or> startsWith url ''//''"
  by (auto simp: parser_isValidURL_def Let_def)

lemma replaceAll_no_match:
  "(\<And>t. suffix t s \<Longrightarrow> m t = None) \<Longrightarrow> replaceAll m s = s"
proof (induction s)
  case Nil
  show ?case by simp
next
  case (Cons c cs)
  have "m (c # cs) = None" using Cons.prems by simp
  moreover have "replaceAll m cs = cs"
    using Cons.prems by (intro Cons.IH) (simp add: suffix_Cons)
  ultimately show ?case by simp
qed

lemma wrapIn_no_delimiter:
  assumes "d \<noteq> []" and "hd d \<notin> set s"
  shows "replaceAll (wrapIn d tag) s = s"
proof (rule replaceAll_no_match)
  fix t assume "suffix t s"
  then have "set t \<subseteq> set s" by (rule set_mono_suffix)
  with assms have "\<not> prefix d t"
    by (cases d; cases t) auto
  then show "wrapIn d tag t = None"
    by (simp add: wrapIn_def lazyGroup_def)
qed

lemma inlineCode_no_backtick:
  assumes "CHR ''`'' \<notin> set s"
  shows "replaceAll inlineCode s = s"
proof (rule replaceAll_no_match)
  fix t assume "suffix t s"
  then have "set t \<subseteq> set s" by (rule set_mono_suffix)
  with assms show "inlineCode t = None"
    by (cases t) (auto simp: inlineCode_def)
qed

lemma dropWhile_absent: "x \<notin> set s \<Longrightarrow> dropWhile (\<lambda>c. c \<noteq> x) s = []"
  by (induction s) auto

lemma inlineImage_no_bracket:
  assumes "CHR '']'' \<notin> set s"
  shows "replaceAll inlineImage s = s"
proof (rule replaceAll_no_match)
  fix t assume "suffix t s"
  then have sub: "set t \<subseteq> set s" by (rule set_mono_suffix)
  show "inlineImage t = None"
  proof (cases t)
    case Nil
    then show ?thesis by (simp add: inlineImage_def)
  next
    case (Cons c u)
    show ?thesis
    proof (cases u)
      case Nil
      with Cons show ?thesis by (simp add: inlineImage_def)
    next
      case (Cons b cs)
      with \<open>t = c # u\<close> sub assms have "CHR '']'' \<notin> set cs" by auto
      then have "bracketParen True cs = None"
        by (simp add: bracketParen_def dropWhile_absent)
      with Cons \<open>t = c # u\<close> show ?thesis by (simp add: inlineImage_def)
    qed
  qed
qed

lemma bracketParen_match:
  assumes "CHR '']'' \<notin> set label" and "CHR '')'' \<notin> set url" and "url \<noteq> []"
    and "label \<noteq> [] \<or> emptyOk"
  shows "bracketParen emptyOk (label @ '']('' @ url @ '')'' @ rest) = Some (label, url, rest)"
proof -
  have t1: "takeWhile (\<lambda>x. x \<noteq> CHR '']'') (label @ '']('' @ url @ '')'' @ rest) = label"
    using assms(1) by (induction label) auto
  have d1: "dropWhile (\<lambda>x. x \<noteq> CHR '']'') (label @ '']('' @ url @ '')'' @ rest)
      = '']('' @ url @ '')'' @ rest"
    using assms(1) by (induction label) auto
  have t2: "takeWhile (\<lambda>x. x \<noteq> CHR '')'') (url @ CHR '')'' # rest) = url"
    using assms(2) by (induction url) auto
  have d2: "dropWhile (\<lambda>x. x \<noteq> CHR '')'') (url @ CHR '')'' # rest) = CHR '')'' # rest"
    using assms(2) by (induction url) auto
  show ?thesis
    unfolding bracketParen_def Let_def t1 d1
    using assms(3,4) by (simp add: t2 d2)
qed

lemma link_with_rejected_url_is_text:
  assumes "label \<noteq> []" and "url \<noteq> []"
    and "set label \<inter> {CHR ''*'', CHR ''_'', CHR ''~'', CHR ''`'', CHR '']''} = {}"
    and "set url \<inter> {CHR ''*'', CHR ''_'', CHR ''~'', CHR ''`'', CHR '')''} = {}"
    and "\<not> parser_isValidURL url"
  shows "parseInline (''['' @ label @ '']('' @ url @ '')'') = label"
proof -
  let ?s = "''['' @ label @ '']('' @ url @ '')''"
  have star: "CHR ''*'' \<notin> set ?s" and under: "CHR ''_'' \<notin> set ?s"
    and tilde: "CHR ''~'' \<notin> set ?s" and tick: "CHR ''`'' \<notin> set ?s"
    using assms(3,4) by auto
  have s1: "replaceAll (wrapIn ''**'' ''strong'') ?s = ?s"
    using star by (intro wrapIn_no_delimiter) simp_all
  have s2: "replaceAll (wrapIn ''__'' ''strong'') ?s = ?s"
    using under by (intro wrapIn_no_delimiter) simp_all
  have s3: "replaceAll (wrapIn ''*'' ''em'') ?s = ?s"
    using star by (intro wrapIn_no_delimiter) simp_all
  have s4: "replaceAll (wrapIn ''_'' ''em'') ?s = ?s"
    using under by (intro wrapIn_no_delimiter) simp_all
  have s5: "replaceAll (wrapIn ''~~'' ''s'') ?s = ?s"
    using tilde by (intro wrapIn_no_delimiter) simp_all
  have s6: "replaceAll inlineCode ?s = ?s"
    using tick by (rule inlineCode_no_backtick)
  have bp: "bracketParen False (label @ '']('' @ url @ '')'' @ []) = Some (label, url, [])"
    using assms by (intro bracketParen_match) auto
  have s7: "replaceAll inlineLink ?s = label"
    using bp assms(5) by (simp add: inlineLink_def)
  have s8: "replaceAll inlineImage label = label"
    using assms(3) by (intro inlineImage_no_bracket) auto
  show ?thesis
    unfolding parseInline_def Let_def s1 s2 s3 s4 s5 s6 s7 s8 ..
qed

lemma image_without_alt_with_rejected_url_is_removed:
  assumes "url \<noteq> []"
    and "set url \<inter> {CHR ''*'', CHR ''_'', CHR ''~'', CHR ''`'', CHR '')'', CHR ''[''} = {}"
    and "\<not> isValidImageURL url"
  shows "parseInline (''![]('' @ url @ '')'') = []"
proof -
  let ?s = "''![]('' @ url @ '')''"
  have star: "CHR ''*'' \<notin> set ?s" and under: "CHR ''_'' \<notin> set ?s"
    and tilde: "CHR ''~'' \<notin> set ?s" and tick: "CHR ''`'' \<notin> set ?s"
    using assms(2) by auto
  have s1: "replaceAll (wrapIn ''**'' ''strong'') ?s = ?s"
    using star by (intro wrapIn_no_delimiter) simp_all
  have s2: "replaceAll (wrapIn ''__'' ''strong'') ?s = ?s"
    using under by (intro wrapIn_no_delimiter) simp_all
  have s3: "replaceAll (wrapIn ''*'' ''em'') ?s = ?s"
    using star by (intro wrapIn_no_delimiter) simp_all
  have s4: "replaceAll (wrapIn ''_'' ''em'') ?s = ?s"
    using under by (intro wrapIn_no_delimiter) simp_all
  have s5: "replaceAll (wrapIn ''~~'' ''s'') ?s = ?s"
    using tilde by (intro wrapIn_no_delimiter) simp_all
  have s6: "replaceAll inlineCode ?s = ?s"
    using tick by (rule inlineCode_no_backtick)
  have nolink: "inlineLink t = None" if "suffix t ?s" for t
  proof (cases t)
    case Nil
    then show ?thesis by (simp add: inlineLink_def)
  next
    case (Cons c cs)
    show ?thesis
    proof (cases "c = CHR ''[''")
      case False
      with Cons show ?thesis by (simp add: inlineLink_def)
    next
      case True
      from that Cons True have "suffix (CHR ''['' # cs) (CHR ''!'' # CHR ''['' # '']('' @ url @ '')'')"
        by simp
      then have "suffix (CHR ''['' # cs) (CHR ''['' # '']('' @ url @ '')'')"
        by (auto simp: suffix_Cons)
      then have "CHR ''['' # cs = CHR ''['' # '']('' @ url @ '')''
          \<or> suffix (CHR ''['' # cs) ('']('' @ url @ '')'')"
        by (auto simp: suffix_Cons)
      then show ?thesis
      proof
        assume "CHR ''['' # cs = CHR ''['' # '']('' @ url @ '')''"
        then have "cs = '']('' @ url @ '')''" by simp
        then have "bracketParen False cs = None"
          by (simp add: bracketParen_def)
        with Cons True show ?thesis by (simp add: inlineLink_def)
      next
        assume "suffix (CHR ''['' # cs) ('']('' @ url @ '')'')"
        then have "set (CHR ''['' # cs) \<subseteq> set ('']('' @ url @ '')'')"
          by (rule set_mono_suffix)
        with assms(2) show ?thesis by auto
      qed
    qed
  qed
  have s7: "replaceAll inlineLink ?s = ?s"
    using nolink by (rule replaceAll_no_match)
  have bp: "bracketParen True ([] @ '']('' @ url @ '')'' @ []) = Some ([], url, [])"
    using assms by (intro bracketParen_match) auto
  have s8: "replaceAll inlineImage ?s = []"
    using bp assms(3) by (simp add: inlineImage_def)
  show ?thesis
    unfolding parseInline_def Let_def s1 s2 s3 s4 s5 s6 s7 s8 ..
qed

text \<open>
  C5. An image with a rejected URL and a non-empty alt text is not replaced by the empty
  string: the link replacement runs before the image replacement and takes
  \<open>[alt](javascript:x)\<close> out of \<open>![alt](javascript:x)\<close> as a link with a rejected URL, so the
  alt text stays behind the exclamation mark.
\<close>

theorem invalid_image_degrades_to_text:
  "parseInline ''![alt](javascript:x)'' = ''!alt''"
  by code_simp

subsection \<open>Plugins\<close>

lemma applyPlugins_loop_append:
  "applyPlugins_loop cfg requested (ps @ qs) content =
     (case applyPlugins_loop cfg requested ps content of
        Inl e \<Rightarrow> Inl e
      | Inr r \<Rightarrow> applyPlugins_loop cfg requested qs r)"
  by (induction ps arbitrary: content) (auto split: sum.splits)

lemma applyPlugins_registerPlugin:
  "applyPlugins (registerPlugin parser plugin) requested content =
     (case applyPlugins parser requested content of
        Inl e \<Rightarrow> Inl e
      | Inr r \<Rightarrow>
          if stageMatches plugin requested then plugin_process plugin r (config parser)
          else Inr r)"
  by (auto simp: applyPlugins_def registerPlugin_def applyPlugins_loop_append
      split: sum.splits)

lemma config_registerPlugin: "config (registerPlugin parser plugin) = config parser"
  by (simp add: registerPlugin_def)

lemma postprocess_not_preprocess:
  "plugin_stage plugin = Some ''postprocess'' \<Longrightarrow> \<not> stageMatches plugin ''preprocess''"
  by (simp add: stageMatches_def)


text \<open>
  C7. A plugin whose stage is not set is run at the preprocess stage too: the marker plugin
  with no stage changes the content when the preprocess stage runs.
\<close>

theorem unset_stage_runs_at_preprocess:
  "applyPlugins
     \<lparr>config = (),
      plugins = [\<lparr>plugin_name = ''Marker'', plugin_stage = None,
                  plugin_process = markerProcess\<rparr>]\<rparr>
     ''preprocess'' ''x''
   = Inr ''x<!--seen-->''"
  by (simp add: applyPlugins_def stageMatches_def markerProcess_def)


text \<open>
  C7, as the code has it. A registered plugin whose stage is not set matches every requested
  stage, preprocess as well as postprocess: whatever stage runs, the plugin is invoked on
  the content the plugins registered before it have produced.
\<close>

theorem unset_stage_runs_at_every_stage:
  assumes "plugin_stage plugin = None"
  shows "stageMatches plugin requested
         \<and> applyPlugins (registerPlugin parser plugin) requested content =
             (case applyPlugins parser requested content of
                Inl e \<Rightarrow> Inl e
              | Inr r \<Rightarrow> plugin_process plugin r (config parser))"
  using assms
  by (auto simp: applyPlugins_registerPlugin stageMatches_def split: sum.splits)

theorem unset_stage_runs_at_every_stage_witness:
  "stageMatches \<lparr>plugin_name = ''Marker'', plugin_stage = None, plugin_process = markerProcess\<rparr>
     ''preprocess''
   \<and> applyPlugins
       (registerPlugin \<lparr>config = (), plugins = []\<rparr>
          \<lparr>plugin_name = ''Marker'', plugin_stage = None, plugin_process = markerProcess\<rparr>)
       ''preprocess'' ''x''
     = Inr ''x<!--seen-->''"
  using unset_stage_runs_at_every_stage
    [of "\<lparr>plugin_name = ''Marker'', plugin_stage = None, plugin_process = markerProcess\<rparr>"
        "''preprocess''" "\<lparr>config = (), plugins = []\<rparr>" "''x''"]
  by (simp add: applyPlugins_def applyPlugins_loop.simps markerProcess_def)


text \<open>
  C9. Two plugins registered in the order \<open>P1\<close>, \<open>P2\<close> that match the requested stage: running
  the stage gives \<open>P1\<close> the content left by the plugins registered earlier and gives \<open>P2\<close> the
  output of \<open>P1\<close>; when one of them throws, nothing behind it runs. In general a stage run
  over the plugins with one more registered is the run over the earlier ones, followed by
  the new plugin on their output when it matches. In \<open>parse\<close> the postprocess run takes the
  output of the inline parser over the output of the block parser, and a plugin of stage
  \<open>postprocess\<close> is not run by the preprocess run.
\<close>

theorem plugins_threaded_in_registration_order:
  assumes "stageMatches P1 requested" and "stageMatches P2 requested"
  shows "applyPlugins (registerPlugin (registerPlugin parser P1) P2) requested content =
           (case applyPlugins parser requested content of
              Inl e \<Rightarrow> Inl e
            | Inr r0 \<Rightarrow>
                (case plugin_process P1 r0 (config parser) of
                   Inl e \<Rightarrow> Inl e
                 | Inr r1 \<Rightarrow> plugin_process P2 r1 (config parser)))
         \<and> (markdown \<noteq> [] \<longrightarrow>
              parse parser markdown =
                (case applyPlugins parser ''preprocess'' markdown of
                   Inl e \<Rightarrow> Some (Inl e)
                 | Inr pre \<Rightarrow>
                     (case parseBlocks pre of
                        None \<Rightarrow> None
                      | Some blocks \<Rightarrow>
                          Some (applyPlugins parser ''postprocess'' (parseInline blocks)))))
         \<and> (plugin_stage P = Some ''postprocess'' \<longrightarrow>
              applyPlugins (registerPlugin parser P) ''preprocess'' content
                = applyPlugins parser ''preprocess'' content)
         \<and> applyPlugins (registerPlugin parser P) requested content =
             (case applyPlugins parser requested content of
                Inl e \<Rightarrow> Inl e
              | Inr r \<Rightarrow>
                  if stageMatches P requested then plugin_process P r (config parser)
                  else Inr r)"
proof (intro conjI impI)
  show "applyPlugins (registerPlugin (registerPlugin parser P1) P2) requested content =
           (case applyPlugins parser requested content of
              Inl e \<Rightarrow> Inl e
            | Inr r0 \<Rightarrow>
                (case plugin_process P1 r0 (config parser) of
                   Inl e \<Rightarrow> Inl e
                 | Inr r1 \<Rightarrow> plugin_process P2 r1 (config parser)))"
    using assms
    by (simp add: applyPlugins_registerPlugin config_registerPlugin split: sum.splits)
next
  assume "markdown \<noteq> []"
  then show "parse parser markdown =
                (case applyPlugins parser ''preprocess'' markdown of
                   Inl e \<Rightarrow> Some (Inl e)
                 | Inr pre \<Rightarrow>
                     (case parseBlocks pre of
                        None \<Rightarrow> None
                      | Some blocks \<Rightarrow>
                          Some (applyPlugins parser ''postprocess'' (parseInline blocks))))"
    by (simp add: parse_def)
next
  assume "plugin_stage P = Some ''postprocess''"
  then have "\<not> stageMatches P ''preprocess''" by (rule postprocess_not_preprocess)
  then show "applyPlugins (registerPlugin parser P) ''preprocess'' content
                = applyPlugins parser ''preprocess'' content"
    by (simp add: applyPlugins_registerPlugin split: sum.splits)
next
  show "applyPlugins (registerPlugin parser P) requested content =
             (case applyPlugins parser requested content of
                Inl e \<Rightarrow> Inl e
              | Inr r \<Rightarrow>
                  if stageMatches P requested then plugin_process P r (config parser)
                  else Inr r)"
    by (rule applyPlugins_registerPlugin)
qed

theorem plugins_threaded_in_registration_order_witness:
  "applyPlugins
     (registerPlugin
        (registerPlugin \<lparr>config = (), plugins = []\<rparr>
           \<lparr>plugin_name = ''Marker'', plugin_stage = Some ''postprocess'',
            plugin_process = markerProcess\<rparr>)
        \<lparr>plugin_name = ''Wrap'', plugin_stage = Some ''postprocess'',
         plugin_process = wrapProcess\<rparr>)
     ''postprocess'' ''x''
   = Inr ''<div>x<!--seen--></div>''"
proof -
  let ?P1 = "\<lparr>plugin_name = ''Marker'', plugin_stage = Some ''postprocess'',
              plugin_process = markerProcess\<rparr>"
  let ?P2 = "\<lparr>plugin_name = ''Wrap'', plugin_stage = Some ''postprocess'',
              plugin_process = wrapProcess\<rparr>"
  have h1: "stageMatches ?P1 ''postprocess''" by (simp add: stageMatches_def)
  have h2: "stageMatches ?P2 ''postprocess''" by (simp add: stageMatches_def)
  from plugins_threaded_in_registration_order
         [OF h1 h2, of "\<lparr>config = (), plugins = []\<rparr>" "''x''"]
  show ?thesis
    by (simp add: applyPlugins_def markerProcess_def wrapProcess_def)
qed

end
